theory Spec2Isabelle
  imports Main "HOL-Library.Sublist"
begin

section \<open>Values, errors and results\<close>

text \<open>
  The JavaScript values that flow through the parsers of \<^verbatim>\<open>src/parser.js\<close>: inputs
  (strings, arrays, or an absent input), parsed values, defaults and binary operator
  functions (the values produced by an \<^verbatim>\<open>operation\<close> parser of \<^verbatim>\<open>chain\<close>).
\<close>

datatype val =
    Undefined
  | Null
  | Bool bool
  | Num int
  | Str string
  | Arr "val list"
  | Fn "int \<Rightarrow> int \<Rightarrow> int"

text \<open>
  A thrown exception is a value of the model. \<open>TypeError\<close> is the JavaScript exception
  (reading a property of \<^verbatim>\<open>undefined\<close>, calling something that is not a function);
  \<open>Unsupported\<close> marks an operation on values whose JavaScript coercion is outside the
  modelled fragment; \<open>OutOfFuel\<close> is the recursion bound of the evaluator running out.
\<close>

datatype error = TypeError | Unsupported | OutOfFuel

text \<open>
  Modelled from the spec: the class \<^verbatim>\<open>Result\<close> of \<^verbatim>\<open>./result\<close>, which is imported by
  \<^verbatim>\<open>parser.js\<close> and is not part of the sources. It is the ordered sequence of
  derivations \<open>(value, remainder)\<close>; \<^verbatim>\<open>new Result(input)\<close> is the empty sequence,
  \<^verbatim>\<open>push\<close> appends one derivation, \<^verbatim>\<open>concat\<close> appends a Result, \<^verbatim>\<open>length\<close> counts the
  derivations, iteration yields the pairs in order and \<^verbatim>\<open>values\<close> are the first
  components.

  A Result is a value here: \<^verbatim>\<open>push\<close> and \<^verbatim>\<open>concat\<close> return the extended sequence and
  leave the sequence they were given as it was, and two parsers never share one Result
  object. If \<^verbatim>\<open>push\<close> of the class appends in place, the code keeps derivations of
  earlier runs in more runs than this model does; no run evaluated below depends on it.
\<close>

type_synonym result = "(val \<times> val) list"

definition push :: "result \<Rightarrow> val \<Rightarrow> val \<Rightarrow> result" where
  "push r v s = r @ [(v, s)]"

definition concat_result :: "result \<Rightarrow> result \<Rightarrow> result" where
  "concat_result r r' = r @ r'"

definition map_values :: "(val \<Rightarrow> val) \<Rightarrow> result \<Rightarrow> result" where
  "map_values f r = map (\<lambda>(v, s). (f v, s)) r"

text \<open>JavaScript truthiness, \<^verbatim>\<open>typeof\<close>, \<^verbatim>\<open>===\<close> and \<^verbatim>\<open>+\<close> on the modelled values.\<close>

fun truthy :: "val \<Rightarrow> bool" where
  "truthy Undefined = False"
| "truthy Null = False"
| "truthy (Bool b) = b"
| "truthy (Num n) = (n \<noteq> 0)"
| "truthy (Str s) = (s \<noteq> [])"
| "truthy (Arr xs) = True"
| "truthy (Fn f) = True"

fun js_typeof :: "val \<Rightarrow> string" where
  "js_typeof Undefined = ''undefined''"
| "js_typeof Null = ''object''"
| "js_typeof (Bool b) = ''boolean''"
| "js_typeof (Num n) = ''number''"
| "js_typeof (Str s) = ''string''"
| "js_typeof (Arr xs) = ''object''"
| "js_typeof (Fn f) = ''function''"

text \<open>
  \<^verbatim>\<open>a === b\<close>: equality of primitives of the same type. Two arrays or two functions
  are equal only as the same object; object identity is not part of the model, and
  they compare unequal here.
\<close>

fun strict_eq :: "val \<Rightarrow> val \<Rightarrow> bool" where
  "strict_eq Undefined Undefined = True"
| "strict_eq Null Null = True"
| "strict_eq (Bool a) (Bool b) = (a = b)"
| "strict_eq (Num a) (Num b) = (a = b)"
| "strict_eq (Str a) (Str b) = (a = b)"
| "strict_eq _ _ = False"

text \<open>\<^verbatim>\<open>a + b\<close>: string concatenation and integer addition; other operand pairs coerce
  in JavaScript and are outside the model.\<close>

fun js_add :: "val \<Rightarrow> val \<Rightarrow> error + val" where
  "js_add (Str a) (Str b) = Inr (Str (a @ b))"
| "js_add (Num a) (Num b) = Inr (Num (a + b))"
| "js_add _ _ = Inl Unsupported"

text \<open>\<^verbatim>\<open>f(x, y)\<close> for a parsed operator \<open>f\<close>: calling a value that is not a function
  throws.\<close>

fun js_call2 :: "val \<Rightarrow> val \<Rightarrow> val \<Rightarrow> error + val" where
  "js_call2 (Fn f) (Num a) (Num b) = Inr (Num (f a b))"
| "js_call2 (Fn f) _ _ = Inl Unsupported"
| "js_call2 _ _ _ = Inl TypeError"

text \<open>\<^verbatim>\<open>value.length\<close>, \<^verbatim>\<open>value[0]\<close> and \<^verbatim>\<open>value.slice(1)\<close>.\<close>

fun js_length :: "val \<Rightarrow> error + val" where
  "js_length Undefined = Inl TypeError"
| "js_length Null = Inl TypeError"
| "js_length (Str s) = Inr (Num (int (length s)))"
| "js_length (Arr xs) = Inr (Num (int (length xs)))"
| "js_length (Fn f) = Inr (Num 2)"
| "js_length _ = Inr Undefined"

fun js_head :: "val \<Rightarrow> val" where
  "js_head (Str (c # cs)) = Str [c]"
| "js_head (Arr (x # xs)) = x"
| "js_head _ = Undefined"

fun js_slice1 :: "val \<Rightarrow> error + val" where
  "js_slice1 (Str s) = Inr (Str (tl s))"
| "js_slice1 (Arr xs) = Inr (Arr (tl xs))"
| "js_slice1 _ = Inl TypeError"

text \<open>
  Modelled from the spec: \<^verbatim>\<open>util.accumulator(kind, typeHint)\<close> of \<^verbatim>\<open>./util\<close>, which is
  not part of the sources. Given the \<^verbatim>\<open>typeof\<close> of the first matched value and an
  optional explicit hint, it returns the empty accumulator of the matching kind: the
  empty string for a string, the empty sequence otherwise.
\<close>

datatype acc_kind = AccString | AccSequence

fun accumulator :: "string \<Rightarrow> acc_kind option \<Rightarrow> val" where
  "accumulator kind (Some AccString) = Str []"
| "accumulator kind (Some AccSequence) = Arr []"
| "accumulator kind None = (if kind = ''string'' then Str [] else Arr [])"

section \<open>Parser objects\<close>

text \<open>
  One constructor per class of \<^verbatim>\<open>parser.js\<close>. Every object carries the two fields of
  the base class: \<^verbatim>\<open>result\<close>, the evaluation buffer, and \<^verbatim>\<open>mapValues\<close> (\<open>None\<close> for
  \<^verbatim>\<open>false\<close>). The sub-parsers of a composed parser are private copies made by its
  constructor, so an object is a tree that carries its own state.

  The arrow functions of the combinators are closures: \<open>cb\<close> has one constructor per
  arrow function of the source, holding the variables it captures; \<open>CbUser\<close> is a
  function supplied by the caller. A captured receiver \<^verbatim>\<open>this\<close> is captured as the
  object it is when the combinator is called.
\<close>

datatype parser =
    ItemParser result "(val \<Rightarrow> val) option"
  | ZeroParser result "(val \<Rightarrow> val) option"
  | ResultParser result "(val \<Rightarrow> val) option" val
  | BindedParser result "(val \<Rightarrow> val) option" parser cb bool
  | AddedParser result "(val \<Rightarrow> val) option" "parser list"
  | NegatedParser result "(val \<Rightarrow> val) option" parser
  | LazyParser result "(val \<Rightarrow> val) option" "unit \<Rightarrow> parser" "parser option"
and cb =
    CbUser "val \<Rightarrow> val \<Rightarrow> cbret"
  | CbConst cbret
  | CbSatisfy "val \<Rightarrow> bool"
  | CbManyOuter parser "acc_kind option"
  | CbManyInner val "acc_kind option"
  | CbStartsHead parser val bool
  | CbStartsTail val val bool
  | CbChainRest parser parser
  | CbChainOp parser parser val
  | CbChainFold parser parser val val
  | CbChainRRest parser parser
  | CbChainROp parser parser val
  | CbChainRApply val val
and cbret =
    RetV val
  | RetP parser
  | RetThrow error

fun get_result :: "parser \<Rightarrow> result" where
  "get_result (ItemParser r m) = r"
| "get_result (ZeroParser r m) = r"
| "get_result (ResultParser r m v) = r"
| "get_result (BindedParser r m p c a) = r"
| "get_result (AddedParser r m ps) = r"
| "get_result (NegatedParser r m p) = r"
| "get_result (LazyParser r m f c) = r"

fun set_result :: "result \<Rightarrow> parser \<Rightarrow> parser" where
  "set_result r' (ItemParser r m) = ItemParser r' m"
| "set_result r' (ZeroParser r m) = ZeroParser r' m"
| "set_result r' (ResultParser r m v) = ResultParser r' m v"
| "set_result r' (BindedParser r m p c a) = BindedParser r' m p c a"
| "set_result r' (AddedParser r m ps) = AddedParser r' m ps"
| "set_result r' (NegatedParser r m p) = NegatedParser r' m p"
| "set_result r' (LazyParser r m f c) = LazyParser r' m f c"

fun mapValues :: "parser \<Rightarrow> (val \<Rightarrow> val) option" where
  "mapValues (ItemParser r m) = m"
| "mapValues (ZeroParser r m) = m"
| "mapValues (ResultParser r m v) = m"
| "mapValues (BindedParser r m p c a) = m"
| "mapValues (AddedParser r m ps) = m"
| "mapValues (NegatedParser r m p) = m"
| "mapValues (LazyParser r m f c) = m"

text \<open>\<^verbatim>\<open>map(mapValues)\<close>: stores the function on the receiver.\<close>

fun map_parser :: "parser \<Rightarrow> (val \<Rightarrow> val) \<Rightarrow> parser" where
  "map_parser (ItemParser r m) f = ItemParser r (Some f)"
| "map_parser (ZeroParser r m) f = ZeroParser r (Some f)"
| "map_parser (ResultParser r m v) f = ResultParser r (Some f) v"
| "map_parser (BindedParser r m p c a) f = BindedParser r (Some f) p c a"
| "map_parser (AddedParser r m ps) f = AddedParser r (Some f) ps"
| "map_parser (NegatedParser r m p) f = NegatedParser r (Some f) p"
| "map_parser (LazyParser r m g c) f = LazyParser r (Some f) g c"

text \<open>
  \<^verbatim>\<open>copy()\<close>. The base class builds a new object and assigns every own field of the
  receiver to it (\<^verbatim>\<open>Object.assign\<close>), \<^verbatim>\<open>result\<close> and \<^verbatim>\<open>mapValues\<close> included: for the
  three leaf classes the copy has the fields of the receiver. The composed classes
  override it and call their constructor, which copies the sub-parsers and starts from
  an empty \<^verbatim>\<open>result\<close> and \<^verbatim>\<open>mapValues = false\<close>.
\<close>

fun copy :: "parser \<Rightarrow> parser" where
  "copy (ItemParser r m) = ItemParser r m"
| "copy (ZeroParser r m) = ZeroParser r m"
| "copy (ResultParser r m v) = ResultParser r m v"
| "copy (BindedParser r m p c a) = BindedParser [] None (copy p) c a"
| "copy (AddedParser r m ps) = AddedParser [] None (map copy ps)"
| "copy (NegatedParser r m p) = NegatedParser [] None (copy p)"
| "copy (LazyParser r m f (Some c)) = copy c"
| "copy (LazyParser r m f None) = LazyParser [] None f None"

section \<open>Combinators\<close>

text \<open>\<^verbatim>\<open>Parser.result\<close>, \<^verbatim>\<open>Parser.zero\<close>, \<^verbatim>\<open>Parser.item\<close>, \<^verbatim>\<open>Parser.lazy\<close>: the constructors
  start from an empty \<^verbatim>\<open>result\<close> and \<^verbatim>\<open>mapValues = false\<close>.\<close>

definition result_parser :: "val \<Rightarrow> parser" where
  "result_parser v = ResultParser [] None v"

definition zero :: parser where
  "zero = ZeroParser [] None"

definition item :: parser where
  "item = ItemParser [] None"

definition lazy :: "(unit \<Rightarrow> parser) \<Rightarrow> parser" where
  "lazy fn = LazyParser [] None fn None"

text \<open>\<^verbatim>\<open>not()\<close>: the constructor of \<^verbatim>\<open>NegatedParser\<close> copies the receiver.\<close>

definition not_parser :: "parser \<Rightarrow> parser" where
  "not_parser p = NegatedParser [] None (copy p)"

text \<open>
  \<^verbatim>\<open>then(next, alwaysCheckSecond)\<close>. The argument \<open>next\<close> is a callback, a parser or a
  plain value; an omitted argument is \<^verbatim>\<open>undefined\<close>. A value that is a function is
  called as the callback. The constructor of \<^verbatim>\<open>BindedParser\<close> copies the receiver.
\<close>

datatype next_arg = NextCallback cb | NextParser parser | NextValue val

fun then_parser :: "parser \<Rightarrow> next_arg \<Rightarrow> bool \<Rightarrow> parser" where
  "then_parser p (NextValue Undefined) a = zero"
| "then_parser p (NextCallback c) a = BindedParser [] None (copy p) c a"
| "then_parser p (NextValue (Fn f)) a =
     BindedParser [] None (copy p)
       (CbUser (\<lambda>v i. case js_call2 (Fn f) v i of Inl e \<Rightarrow> RetThrow e | Inr x \<Rightarrow> RetV x)) a"
| "then_parser p (NextParser q) a = BindedParser [] None (copy p) (CbConst (RetP q)) a"
| "then_parser p (NextValue v) a = BindedParser [] None (copy p) (CbConst (RetV v)) a"

text \<open>\<^verbatim>\<open>or(...)\<close>: every argument that is not a parser is wrapped by \<^verbatim>\<open>Parser.result\<close>;
  the constructor of \<^verbatim>\<open>AddedParser\<close> copies the receiver and every alternative.\<close>

datatype or_arg = OrParser parser | OrValue val

fun parserify :: "or_arg \<Rightarrow> parser" where
  "parserify (OrParser q) = q"
| "parserify (OrValue v) = result_parser v"

definition or_parser :: "parser \<Rightarrow> or_arg list \<Rightarrow> parser" where
  "or_parser p args = AddedParser [] None (map copy (p # map parserify args))"

text \<open>The default \<^verbatim>\<open>empty = ''\<close> of \<^verbatim>\<open>orNone\<close> and \<^verbatim>\<open>manyOrNone\<close> replaces an omitted
  argument.\<close>

fun default_empty :: "or_arg \<Rightarrow> or_arg" where
  "default_empty (OrValue Undefined) = OrValue (Str [])"
| "default_empty e = e"

definition orNone :: "parser \<Rightarrow> or_arg \<Rightarrow> parser" where
  "orNone p emp = or_parser p [default_empty emp]"

definition satisfy :: "parser \<Rightarrow> (val \<Rightarrow> bool) \<Rightarrow> parser" where
  "satisfy p condition = then_parser p (NextCallback (CbSatisfy condition)) False"

definition equals :: "parser \<Rightarrow> val \<Rightarrow> parser" where
  "equals p v = satisfy p (\<lambda>input. strict_eq v input)"

definition many :: "parser \<Rightarrow> acc_kind option \<Rightarrow> parser" where
  "many p ty = then_parser p (NextCallback (CbManyOuter p ty)) False"

definition manyOrNone :: "parser \<Rightarrow> or_arg \<Rightarrow> acc_kind option \<Rightarrow> parser" where
  "manyOrNone p emp ty = or_parser (many p ty) [default_empty emp]"

text \<open>\<^verbatim>\<open>startsWith(value, partial)\<close>: reading \<^verbatim>\<open>value.length\<close> throws for an absent
  value; a value without elements gives \<^verbatim>\<open>Parser.zero()\<close>.\<close>

definition startsWith :: "parser \<Rightarrow> val \<Rightarrow> bool \<Rightarrow> error + parser" where
  "startsWith p v partial =
     (case js_length v of
        Inl e \<Rightarrow> Inl e
      | Inr n \<Rightarrow>
          if \<not> truthy n then Inr zero
          else Inr (then_parser (equals p (js_head v))
                      (NextCallback (CbStartsHead p v partial)) False))"

text \<open>\<^verbatim>\<open>chain\<close> tests \<^verbatim>\<open>def !== undefined\<close>, \<^verbatim>\<open>chainRight\<close> tests the truthiness of
  \<^verbatim>\<open>def\<close>; a parser is an object and truthy.\<close>

fun is_undefined :: "or_arg \<Rightarrow> bool" where
  "is_undefined (OrValue Undefined) = True"
| "is_undefined _ = False"

fun truthy_arg :: "or_arg \<Rightarrow> bool" where
  "truthy_arg (OrParser q) = True"
| "truthy_arg (OrValue v) = truthy v"

definition chain :: "parser \<Rightarrow> parser \<Rightarrow> or_arg \<Rightarrow> parser" where
  "chain p operation def =
     (let parser = then_parser p (NextCallback (CbChainRest p operation)) False
      in if \<not> is_undefined def then or_parser parser [def] else parser)"

definition chainRight :: "parser \<Rightarrow> parser \<Rightarrow> or_arg \<Rightarrow> parser" where
  "chainRight p operation def =
     (let parser = then_parser p (NextCallback (CbChainRRest p operation)) False
      in if truthy_arg def then or_parser parser [def] else parser)"

text \<open>
  The bodies of the arrow functions, applied to the parsed value and the remaining
  input. \<open>CbManyOuter\<close> and \<open>CbManyInner\<close> are the two functions of \<^verbatim>\<open>many\<close>,
  \<open>CbStartsHead\<close> and \<open>CbStartsTail\<close> those of \<^verbatim>\<open>startsWith\<close> (the second one is
  \<^verbatim>\<open>handleResult(head + tail)\<close>), \<open>CbChainRest\<close> is \<^verbatim>\<open>rest\<close> of \<^verbatim>\<open>chain\<close>, \<open>CbChainOp\<close>
  and \<open>CbChainFold\<close> the functions nested in it, and likewise for \<^verbatim>\<open>chainRight\<close>.
\<close>

definition chain_rest :: "parser \<Rightarrow> parser \<Rightarrow> val \<Rightarrow> parser" where
  "chain_rest p operation x =
     or_parser (then_parser operation (NextCallback (CbChainOp p operation x)) False) [OrValue x]"

fun many_step :: "val \<Rightarrow> acc_kind option \<Rightarrow> val \<Rightarrow> cbret" where
  "many_step c ty c1 =
     (let c1' = (if \<not> truthy c1 then accumulator (js_typeof c) ty else c1)
      in case c1' of
           Str s \<Rightarrow> (case js_add c c1' of Inl e \<Rightarrow> RetThrow e
                      | Inr v \<Rightarrow> RetP (result_parser v))
         | Arr xs \<Rightarrow> RetP (result_parser (Arr (c # xs)))
         | _ \<Rightarrow> RetThrow TypeError)"

fun handleResult :: "val \<Rightarrow> bool \<Rightarrow> val \<Rightarrow> cbret" where
  "handleResult v partial partialValue =
     (if partial then RetV partialValue
      else if strict_eq partialValue v then RetV v
      else RetP zero)"

fun apply_cb :: "cb \<Rightarrow> val \<Rightarrow> val \<Rightarrow> cbret" where
  "apply_cb (CbUser f) v i = f v i"
| "apply_cb (CbConst r) v i = r"
| "apply_cb (CbSatisfy condition) v i = (if condition v then RetV v else RetP zero)"
| "apply_cb (CbManyOuter p ty) c i =
     RetP (then_parser (manyOrNone p (OrValue (Str [])) ty)
             (NextCallback (CbManyInner c ty)) False)"
| "apply_cb (CbManyInner c ty) c1 i = many_step c ty c1"
| "apply_cb (CbStartsHead p v partial) head i =
     (case js_slice1 v of
        Inl e \<Rightarrow> RetThrow e
      | Inr rest \<Rightarrow>
          (case startsWith p rest False of
             Inl e \<Rightarrow> RetThrow e
           | Inr q \<Rightarrow> RetP (then_parser q (NextCallback (CbStartsTail head v partial)) True)))"
| "apply_cb (CbStartsTail head v partial) tail i =
     (case js_add head tail of
        Inl e \<Rightarrow> RetThrow e
      | Inr pv \<Rightarrow> handleResult v partial pv)"
| "apply_cb (CbChainRest p operation) x i = RetP (chain_rest p operation x)"
| "apply_cb (CbChainOp p operation x) f i =
     RetP (then_parser p (NextCallback (CbChainFold p operation f x)) False)"
| "apply_cb (CbChainFold p operation f x) y i =
     (case js_call2 f x y of
        Inl e \<Rightarrow> RetThrow e
      | Inr z \<Rightarrow> RetP (chain_rest p operation z))"
| "apply_cb (CbChainRRest p operation) x i =
     RetP (or_parser (then_parser operation (NextCallback (CbChainROp p operation x)) False)
             [OrValue x])"
| "apply_cb (CbChainROp p operation x) f i =
     RetP (then_parser (chainRight p operation (OrValue Undefined))
             (NextCallback (CbChainRApply f x)) False)"
| "apply_cb (CbChainRApply f x) y i =
     (case js_call2 f x y of Inl e \<Rightarrow> RetThrow e | Inr z \<Rightarrow> RetV z)"

text \<open>\<^verbatim>\<open>parserifyCb\<close>: calls the callback, wraps a result that is not a parser, and
  returns a copy.\<close>

fun parserifyCb :: "cb \<Rightarrow> val \<Rightarrow> val \<Rightarrow> error + parser" where
  "parserifyCb c v i =
     (case apply_cb c v i of
        RetThrow e \<Rightarrow> Inl e
      | RetV x \<Rightarrow> Inr (copy (result_parser x))
      | RetP q \<Rightarrow> Inr (copy q))"

section \<open>Evaluation\<close>

text \<open>
  \<^verbatim>\<open>process\<close> and \<^verbatim>\<open>parse\<close> return the Result together with the receiver as the call
  leaves it (its \<^verbatim>\<open>result\<close> field, the state of its sub-parsers, the definition cached
  by a \<^verbatim>\<open>LazyParser\<close>). The recursion through sub-parsers and through the parsers that
  callbacks build is not bounded by the source; the evaluator takes a bound on its depth
  and \<open>rec\<close> stands for \<^verbatim>\<open>process\<close> at the depth below.
\<close>

type_synonym outcome = "error + parser \<times> result"

definition parse_with :: "(parser \<Rightarrow> val \<Rightarrow> outcome) \<Rightarrow> parser \<Rightarrow> val \<Rightarrow> outcome" where
  "parse_with rec p input =
     (case rec (set_result [] p) input of
        Inl e \<Rightarrow> Inl e
      | Inr (p', r) \<Rightarrow>
          (let r' = (case mapValues p' of None \<Rightarrow> r | Some f \<Rightarrow> map_values f r)
           in Inr (set_result r' p', r')))"

text \<open>The loop of \<^verbatim>\<open>BindedParser.process\<close> over the derivations of the first parser;
  \<open>acc\<close> is \<^verbatim>\<open>this.result\<close>.\<close>

fun binded_loop :: "(parser \<Rightarrow> val \<Rightarrow> outcome) \<Rightarrow> cb \<Rightarrow> result \<Rightarrow> result \<Rightarrow> error + result" where
  "binded_loop rec c [] acc = Inr acc"
| "binded_loop rec c ((v, s) # first) acc =
     (case parserifyCb c v s of
        Inl e \<Rightarrow> Inl e
      | Inr np \<Rightarrow>
          (case parse_with rec np s of
             Inl e \<Rightarrow> Inl e
           | Inr (np', res) \<Rightarrow> binded_loop rec c first (concat_result acc res)))"

text \<open>The loop of \<^verbatim>\<open>AddedParser.process\<close>: \<open>done\<close> are the alternatives already parsed
  (with an empty Result), in order. It returns the alternatives as the loop leaves them
  and the first Result that is not empty, if there is one.\<close>

fun added_loop ::
  "(parser \<Rightarrow> val \<Rightarrow> outcome) \<Rightarrow> parser list \<Rightarrow> parser list \<Rightarrow> val \<Rightarrow>
   error + parser list \<times> result option" where
  "added_loop rec done [] input = Inr (done, None)"
| "added_loop rec done (q # qs) input =
     (case parse_with rec q input of
        Inl e \<Rightarrow> Inl e
      | Inr (q', res) \<Rightarrow>
          if res \<noteq> [] then Inr (done @ q' # qs, Some res)
          else added_loop rec (done @ [q']) qs input)"

fun step :: "(parser \<Rightarrow> val \<Rightarrow> outcome) \<Rightarrow> parser \<Rightarrow> val \<Rightarrow> outcome" where
  "step rec (ItemParser r m) input =
     (if truthy input then
        (case js_length input of
           Inl e \<Rightarrow> Inl e
         | Inr n \<Rightarrow>
             if truthy n then
               (case js_slice1 input of
                  Inl e \<Rightarrow> Inl e
                | Inr rest \<Rightarrow> Inr (ItemParser r m, push r (js_head input) rest))
             else Inr (ItemParser r m, r))
      else Inr (ItemParser r m, r))"
| "step rec (ZeroParser r m) input = Inr (ZeroParser r m, r)"
| "step rec (ResultParser r m v) input =
     Inr (ResultParser r m v, push r (case v of Undefined \<Rightarrow> input | _ \<Rightarrow> v) input)"
| "step rec (BindedParser r m p c a) input =
     (case parse_with rec p input of
        Inl e \<Rightarrow> Inl e
      | Inr (p', firstResult) \<Rightarrow>
          if a \<and> firstResult = [] then
            (case parserifyCb c (Str []) input of
               Inl e \<Rightarrow> Inl e
             | Inr np \<Rightarrow>
                 (case parse_with rec np input of
                    Inl e \<Rightarrow> Inl e
                  | Inr (np', res) \<Rightarrow> Inr (BindedParser r m p' c a, res)))
          else
            (case binded_loop rec c firstResult r of
               Inl e \<Rightarrow> Inl e
             | Inr r' \<Rightarrow> Inr (BindedParser r' m p' c a, r')))"
| "step rec (AddedParser r m ps) input =
     (case added_loop rec [] ps input of
        Inl e \<Rightarrow> Inl e
      | Inr (ps', Some res) \<Rightarrow> Inr (AddedParser r m ps', res)
      | Inr (ps', None) \<Rightarrow> Inr (AddedParser r m ps', r))"
| "step rec (NegatedParser r m p) input =
     (case rec p input of
        Inl e \<Rightarrow> Inl e
      | Inr (p', res) \<Rightarrow>
          if res \<noteq> [] then Inr (NegatedParser r m p', r)
          else Inr (NegatedParser r m p', push r input input))"
| "step rec (LazyParser r m fn (Some c)) input =
     (case rec (copy c) input of
        Inl e \<Rightarrow> Inl e
      | Inr (c', res) \<Rightarrow> Inr (LazyParser r m fn (Some c), res))"
| "step rec (LazyParser r m fn None) input =
     (case rec (copy (fn ())) input of
        Inl e \<Rightarrow> Inl e
      | Inr (c', res) \<Rightarrow> Inr (LazyParser r m fn (Some c'), res))"

primrec process :: "nat \<Rightarrow> parser \<Rightarrow> val \<Rightarrow> outcome" where
  "process 0 p input = Inl OutOfFuel"
| "process (Suc n) p input = step (process n) p input"

definition parse :: "nat \<Rightarrow> parser \<Rightarrow> val \<Rightarrow> outcome" where
  "parse n p input = parse_with (process n) p input"

text \<open>The Result of a call, without the receiver.\<close>

definition results :: "outcome \<Rightarrow> error + result" where
  "results out = (case out of Inl e \<Rightarrow> Inl e | Inr (p, r) \<Rightarrow> Inr r)"

section \<open>Parsers with empty buffers\<close>

text \<open>
  \<open>remainder_of s input\<close>: \<open>s\<close> is the input itself or, for a string or a sequence, a
  suffix of it.
\<close>

definition remainder_of :: "val \<Rightarrow> val \<Rightarrow> bool" where
  "remainder_of s input =
     (s = input \<or>
      (case (s, input) of
         (Str a, Str b) \<Rightarrow> suffix a b
       | (Arr a, Arr b) \<Rightarrow> suffix a b
       | _ \<Rightarrow> False))"

text \<open>
  \<open>clean p\<close>: the buffer of \<open>p\<close>, of every sub-parser of \<open>p\<close> and of every parser that
  a callback inside \<open>p\<close> returns is empty, as the constructors leave it. The combinators
  that call themselves through their callbacks (\<^verbatim>\<open>many\<close>, \<^verbatim>\<open>chain\<close>) build parsers that
  unfold without end, so the predicate is the greatest one closed under the rules.
\<close>

coinductive clean :: "parser \<Rightarrow> bool" where
  clean_item: "clean (ItemParser [] m)"
| clean_zero: "clean (ZeroParser [] m)"
| clean_result: "clean (ResultParser [] m v)"
| clean_binded: "clean p \<Longrightarrow> (\<forall>v i q. apply_cb c v i = RetP q \<longrightarrow> clean q) \<Longrightarrow> clean (BindedParser [] m p c a)"
| clean_added: "(\<forall>q\<in>set ps. clean q) \<Longrightarrow> clean (AddedParser [] m ps)"
| clean_negated: "clean p \<Longrightarrow> clean (NegatedParser [] m p)"
| clean_lazy: "clean (fn ()) \<Longrightarrow> clean (LazyParser [] m fn None)"
| clean_cached: "clean c \<Longrightarrow> clean (LazyParser [] m fn (Some c))"

definition suffixes_only :: "result \<Rightarrow> val \<Rightarrow> bool" where
  "suffixes_only res input = (\<forall>d\<in>set res. remainder_of (snd d) input)"

text \<open>\<open>sound_rec rec\<close>: the calls one level down return only remainders of their
  input, for every parser with empty buffers.\<close>

definition sound_rec :: "(parser \<Rightarrow> val \<Rightarrow> outcome) \<Rightarrow> bool" where
  "sound_rec rec = (\<forall>p i p' res. clean p \<longrightarrow> rec p i = Inr (p', res) \<longrightarrow> suffixes_only res i)"

text \<open>The parsers that \<^verbatim>\<open>many\<close> on \<open>p\<close> builds while it runs: the outer bind, the
  choice of \<^verbatim>\<open>manyOrNone\<close>, and the bind of the inner callback on that choice.\<close>

definition many_shape :: "parser \<Rightarrow> acc_kind option \<Rightarrow> parser \<Rightarrow> bool" where
  "many_shape p ty x =
     ((\<exists>q. clean q \<and> x = BindedParser [] None q (CbManyOuter p ty) False)
    \<or> (\<exists>q. clean q \<and> x = AddedParser [] None
            [BindedParser [] None q (CbManyOuter p ty) False, ResultParser [] None (Str [])])
    \<or> (\<exists>q c. clean q \<and> x = BindedParser [] None
            (AddedParser [] None
               [BindedParser [] None q (CbManyOuter p ty) False, ResultParser [] None (Str [])])
            (CbManyInner c ty) False))"

section \<open>The depth bound does not change a Result\<close>

text \<open>
  A call that ends within the bound, with a Result or with an exception of the source,
  ends the same way under every larger bound.
\<close>

lemma parse_with_mono:
  assumes "\<And>p i. rec p i \<noteq> Inl OutOfFuel \<Longrightarrow> rec' p i = rec p i"
    and "parse_with rec p i \<noteq> Inl OutOfFuel"
  shows "parse_with rec' p i = parse_with rec p i"
proof -
  from assms(2) have "rec (set_result [] p) i \<noteq> Inl OutOfFuel"
    by (auto simp: parse_with_def)
  from assms(1)[OF this] show ?thesis by (simp add: parse_with_def)
qed

lemma binded_loop_mono:
  assumes "\<And>p i. rec p i \<noteq> Inl OutOfFuel \<Longrightarrow> rec' p i = rec p i"
  shows "binded_loop rec c first acc \<noteq> Inl OutOfFuel \<Longrightarrow>
         binded_loop rec' c first acc = binded_loop rec c first acc"
proof (induction first arbitrary: acc)
  case Nil
  show ?case by simp
next
  case (Cons d first)
  obtain v s where d: "d = (v, s)" by (cases d)
  show ?case
  proof (cases "parserifyCb c v s")
    case (Inl e)
    then show ?thesis using d by simp
  next
    case (Inr np)
    from Cons.prems Inr d have ne: "parse_with rec np s \<noteq> Inl OutOfFuel"
      by (auto split: sum.splits)
    from parse_with_mono[OF assms ne] have eq: "parse_with rec' np s = parse_with rec np s" .
    show ?thesis
    proof (cases "parse_with rec np s")
      case (Inl e)
      then show ?thesis using d Inr eq by simp
    next
      case (Inr b)
      obtain np' res where b: "b = (np', res)" by (cases b)
      from Cons.prems d \<open>parserifyCb c v s = Inr np\<close> Inr b
      have "binded_loop rec c first (concat_result acc res) \<noteq> Inl OutOfFuel" by simp
      from Cons.IH[OF this] show ?thesis
        using d \<open>parserifyCb c v s = Inr np\<close> Inr b eq by simp
    qed
  qed
qed

lemma added_loop_mono:
  assumes "\<And>p i. rec p i \<noteq> Inl OutOfFuel \<Longrightarrow> rec' p i = rec p i"
  shows "added_loop rec done qs i \<noteq> Inl OutOfFuel \<Longrightarrow>
         added_loop rec' done qs i = added_loop rec done qs i"
proof (induction qs arbitrary: "done")
  case Nil
  show ?case by simp
next
  case (Cons q qs)
  from Cons.prems have ne: "parse_with rec q i \<noteq> Inl OutOfFuel"
    by (auto split: sum.splits)
  from parse_with_mono[OF assms ne] have eq: "parse_with rec' q i = parse_with rec q i" .
  show ?case
  proof (cases "parse_with rec q i")
    case (Inl e)
    then show ?thesis using eq by simp
  next
    case (Inr b)
    obtain q' res where b: "b = (q', res)" by (cases b)
    show ?thesis
    proof (cases "res = []")
      case True
      with Cons.prems Inr b have "added_loop rec (done @ [q']) qs i \<noteq> Inl OutOfFuel" by simp
      from Cons.IH[OF this] show ?thesis using Inr b eq True by simp
    next
      case False
      then show ?thesis using Inr b eq by simp
    qed
  qed
qed

lemma step_mono:
  assumes "\<And>p i. rec p i \<noteq> Inl OutOfFuel \<Longrightarrow> rec' p i = rec p i"
    and "step rec p i \<noteq> Inl OutOfFuel"
  shows "step rec' p i = step rec p i"
proof (cases p)
  case (BindedParser r m q c a)
  from assms(2) BindedParser have ne: "parse_with rec q i \<noteq> Inl OutOfFuel"
    by (auto split: sum.splits)
  note eq = parse_with_mono[OF assms(1) ne]
  show ?thesis
  proof (cases "parse_with rec q i")
    case (Inl e)
    then show ?thesis using eq BindedParser by simp
  next
    case (Inr b)
    obtain q' first where b: "b = (q', first)" by (cases b)
    show ?thesis
    proof (cases "a \<and> first = []")
      case True
      show ?thesis
      proof (cases "parserifyCb c (Str []) i")
        case (Inl e)
        then show ?thesis using eq BindedParser Inr b True by simp
      next
        case inr: (Inr np)
        from assms(2) BindedParser Inr b True inr
        have "parse_with rec np i \<noteq> Inl OutOfFuel" by (auto split: sum.splits)
        from parse_with_mono[OF assms(1) this]
        show ?thesis using eq BindedParser Inr b True inr by simp
      qed
    next
      case False
      from assms(2) BindedParser Inr b False
      have "binded_loop rec c first r \<noteq> Inl OutOfFuel" by (auto split: sum.splits)
      from binded_loop_mono[OF assms(1) this]
      show ?thesis using eq BindedParser Inr b False by auto
    qed
  qed
next
  case (AddedParser r m ps)
  from assms(2) AddedParser have "added_loop rec [] ps i \<noteq> Inl OutOfFuel"
    by (auto split: sum.splits)
  from added_loop_mono[OF assms(1) this] show ?thesis using AddedParser by simp
next
  case (NegatedParser r m q)
  from assms(2) NegatedParser have "rec q i \<noteq> Inl OutOfFuel"
    by (auto split: sum.splits)
  from assms(1)[OF this] show ?thesis using NegatedParser by simp
next
  case (LazyParser r m fn cached)
  show ?thesis
  proof (cases cached)
    case None
    from assms(2) LazyParser None have "rec (copy (fn ())) i \<noteq> Inl OutOfFuel"
      by (auto split: sum.splits)
    from assms(1)[OF this] show ?thesis using LazyParser None by simp
  next
    case (Some c)
    from assms(2) LazyParser Some have "rec (copy c) i \<noteq> Inl OutOfFuel"
      by (auto split: sum.splits)
    from assms(1)[OF this] show ?thesis using LazyParser Some by simp
  qed
qed simp_all

lemma process_Suc_mono:
  "process n p i \<noteq> Inl OutOfFuel \<Longrightarrow> process (Suc n) p i = process n p i"
proof (induction n arbitrary: p i)
  case 0
  then show ?case by simp
next
  case (Suc n)
  have "step (process (Suc n)) p i = step (process n) p i"
    by (rule step_mono) (use Suc in auto)
  then show ?case by simp
qed

lemma process_mono:
  "process n p i \<noteq> Inl OutOfFuel \<Longrightarrow> process (n + k) p i = process n p i"
proof (induction k)
  case 0
  show ?case by simp
next
  case (Suc k)
  then have "process (n + k) p i \<noteq> Inl OutOfFuel" by simp
  from process_Suc_mono[OF this] Suc show ?case by simp
qed

lemma parse_mono:
  "parse n p i \<noteq> Inl OutOfFuel \<Longrightarrow> parse (n + k) p i = parse n p i"
  unfolding parse_def
  by (rule parse_with_mono) (auto simp: process_mono)

lemma results_parse_mono:
  "results (parse n p i) = Inr r \<Longrightarrow> results (parse (n + k) p i) = Inr r"
proof -
  assume a: "results (parse n p i) = Inr r"
  then have "parse n p i \<noteq> Inl OutOfFuel" by (auto simp: results_def)
  from parse_mono[OF this] a show ?thesis by simp
qed

text \<open>The definitions that the evaluation of a concrete run unfolds.\<close>

lemmas eval_defs = parse_def parse_with_def results_def push_def concat_result_def
  map_values_def zero_def item_def result_parser_def lazy_def not_parser_def or_parser_def
  orNone_def satisfy_def equals_def many_def manyOrNone_def startsWith_def chain_def
  chainRight_def chain_rest_def Let_def eval_nat_numeral

section \<open>The value mapping of \<^verbatim>\<open>parse\<close>\<close>

lemma set_result_map_parser: "set_result r (map_parser p f) = map_parser (set_result r p) f"
  by (cases p) simp_all

lemma mapValues_map_parser: "mapValues (map_parser p f) = Some f"
  by (cases p) simp_all

lemma step_mapValues: "step rec p i = Inr (p', r) \<Longrightarrow> mapValues p' = mapValues p"
proof (cases p)
  case (LazyParser r0 m fn cached)
  assume "step rec p i = Inr (p', r)"
  then show ?thesis using LazyParser by (cases cached) (auto split: sum.splits)
qed (auto split: sum.splits if_splits option.splits)

lemma step_map_independent: "results (step rec (map_parser p f) i) = results (step rec p i)"
proof (cases p)
  case (LazyParser r0 m fn cached)
  then show ?thesis by (cases cached) (auto simp: results_def split: sum.splits)
qed (auto simp: results_def split: sum.splits option.splits)

text \<open>
  Claim C9. When a mapping \<open>f\<close> has been registered with \<^verbatim>\<open>map\<close>, \<^verbatim>\<open>parse(input)\<close>
  returns the Result of \<^verbatim>\<open>process\<close> on the reset receiver with \<open>f\<close> applied to the value
  of every derivation (an exception of \<^verbatim>\<open>process\<close> is passed on). The mapping step
  keeps the number and the order of the derivations and every remainder.
\<close>

theorem parse_applies_mapping:
  "results (parse n (map_parser p f) input) =
     (case results (process n (set_result [] p) input) of
        Inl e \<Rightarrow> Inl e
      | Inr r \<Rightarrow> Inr (map_values f r))
   \<and> length (map_values f r) = length r
   \<and> map snd (map_values f r) = map snd r
   \<and> map fst (map_values f r) = map f (map fst r)"
proof -
  have "results (parse n (map_parser p f) input) =
     (case results (process n (set_result [] p) input) of
        Inl e \<Rightarrow> Inl e
      | Inr r \<Rightarrow> Inr (map_values f r))"
  proof (cases n)
    case 0
    then show ?thesis by (simp add: parse_def parse_with_def results_def)
  next
    case (Suc k)
    let ?q = "map_parser (set_result [] p) f"
    have ind: "results (step (process k) ?q input) = results (step (process k) (set_result [] p) input)"
      by (rule step_map_independent)
    show ?thesis
    proof (cases "step (process k) ?q input")
      case (Inl e)
      have r1: "results (step (process k) (set_result [] p) input) = Inl e"
        using ind Inl by (simp add: results_def)
      have "results (parse n (map_parser p f) input) = Inl e"
        using Inl Suc by (simp add: parse_def parse_with_def results_def set_result_map_parser)
      then show ?thesis using r1 Suc by simp
    next
      case (Inr b)
      obtain p' r0 where b: "b = (p', r0)" by (cases b)
      from step_mapValues[OF Inr[unfolded b]] have m: "mapValues p' = Some f"
        by (simp add: mapValues_map_parser)
      have r1: "results (step (process k) (set_result [] p) input) = Inr r0"
        using ind Inr b by (simp add: results_def)
      have "results (parse n (map_parser p f) input) = Inr (map_values f r0)"
        using Inr b m Suc
        by (simp add: parse_def parse_with_def results_def set_result_map_parser Let_def)
      then show ?thesis using r1 Suc by simp
    qed
  qed
  moreover have "length (map_values f r) = length r" by (simp add: map_values_def)
  moreover have "map snd (map_values f r) = map snd r" by (simp add: map_values_def split_def)
  moreover have "map fst (map_values f r) = map f (map fst r)" by (simp add: map_values_def split_def)
  ultimately show ?thesis by blast
qed

section \<open>Construction with a missing or empty argument\<close>

text \<open>
  Claim C5. \<^verbatim>\<open>p.then()\<close>, with the continuation omitted, does not throw: it returns
  \<^verbatim>\<open>Parser.zero()\<close>, the failure unit, and both \<^verbatim>\<open>process\<close> and \<^verbatim>\<open>parse\<close> of that unit
  yield the empty Result on every input. Of the two behaviours the specification
  names, the code has the second.
\<close>

theorem then_without_continuation:
  "then_parser p (NextValue Undefined) a = zero
   \<and> process (Suc n) zero input = Inr (zero, [])
   \<and> results (parse (Suc n) zero input) = Inr []"
  by (simp add: zero_def results_def parse_def parse_with_def)

text \<open>
  Claim C4, as stated, fails: \<^verbatim>\<open>startsWith\<close> with the empty string as target raises
  nothing; the guard \<^verbatim>\<open>if (!value.length) return Parser.zero()\<close> returns the failure
  unit.
\<close>

theorem startsWith_empty_no_error:
  "startsWith item (Str []) False = Inr zero \<and> \<not> isl (startsWith item (Str []) False)"
  by (simp add: startsWith_def)

text \<open>
  Claim C4, amended. Calling \<^verbatim>\<open>startsWith\<close> with a target of zero length (the empty
  string or the empty sequence) raises no error: at construction time it returns the
  failure unit, whose \<^verbatim>\<open>parse\<close> yields the empty Result on every input.
\<close>

theorem startsWith_empty_zero:
  "startsWith p (Str []) partial = Inr zero
   \<and> startsWith p (Arr []) partial = Inr zero
   \<and> results (parse (Suc n) zero input) = Inr []"
  by (simp add: startsWith_def zero_def results_def parse_def parse_with_def)

section \<open>The item parser on an absent input\<close>

text \<open>
  \<^verbatim>\<open>process\<close> of the item parser on \<^verbatim>\<open>null\<close> or \<^verbatim>\<open>undefined\<close> does not throw: the
  guard \<^verbatim>\<open>input && input.length\<close> stops at the absent input, and the call returns the
  receiver's buffer as it is, with no derivation added. The buffer is empty for a new
  item parser and in every \<^verbatim>\<open>parse\<close>, which resets it.
\<close>

lemma item_absent_input_returns_buffer:
  "process (Suc n) (ItemParser r m) Null = Inr (ItemParser r m, r)
   \<and> process (Suc n) (ItemParser r m) Undefined = Inr (ItemParser r m, r)
   \<and> results (process (Suc n) item Null) = Inr []
   \<and> results (process (Suc n) item Undefined) = Inr []
   \<and> results (parse (Suc n) (ItemParser r m) Null) = Inr []
   \<and> results (parse (Suc n) (ItemParser r m) Undefined) = Inr []"
  by (simp add: eval_defs split: option.splits)

section \<open>Repetition\<close>

text \<open>
  Claim C7. \<^verbatim>\<open>item().many()\<close> on \<^verbatim>\<open>"abc"\<close> yields the single derivation
  \<^verbatim>\<open>("abc", "")\<close>, on the empty string the empty Result, and \<^verbatim>\<open>item().manyOrNone()\<close>
  on the empty string yields the single derivation \<^verbatim>\<open>("", "")\<close>. Each run ends within
  the depth given and so under every larger bound \<open>k\<close> adds.
\<close>

theorem many_item_examples:
  "results (parse (11 + k) (many item None) (Str ''abc'')) = Inr [(Str ''abc'', Str [])]
   \<and> results (parse (2 + k) (many item None) (Str [])) = Inr []
   \<and> results (parse (3 + k) (manyOrNone item (OrValue Undefined) None) (Str []))
       = Inr [(Str [], Str [])]"
proof -
  have a: "results (parse 11 (many item None) (Str ''abc'')) = Inr [(Str ''abc'', Str [])]"
    by (simp add: eval_defs)
  have b: "results (parse 2 (many item None) (Str [])) = Inr []"
    by (simp add: eval_defs)
  have c: "results (parse 3 (manyOrNone item (OrValue Undefined) None) (Str []))
      = Inr [(Str [], Str [])]"
    by (simp add: eval_defs)
  show ?thesis
    using results_parse_mono[OF a] results_parse_mono[OF b] results_parse_mono[OF c] by blast
qed

section \<open>The default of \<^verbatim>\<open>chain\<close> and \<^verbatim>\<open>chainRight\<close>\<close>

text \<open>
  Claim C8. For a default that is defined and falsy (the empty string, the number
  zero), \<^verbatim>\<open>chain(operation, def)\<close> is the parser without default with \<^verbatim>\<open>.or(def)\<close>
  added, while \<^verbatim>\<open>chainRight(operation, def)\<close> is the parser without default. With the
  item parser on the empty input, where nothing matches first, \<^verbatim>\<open>chain\<close> succeeds with
  the default and \<^verbatim>\<open>chainRight\<close> fails.
\<close>

theorem chain_default_falsy:
  "chain p operation (OrValue (Str []))
     = or_parser (chain p operation (OrValue Undefined)) [OrValue (Str [])]
   \<and> chain p operation (OrValue (Num 0))
     = or_parser (chain p operation (OrValue Undefined)) [OrValue (Num 0)]
   \<and> chainRight p operation (OrValue (Str [])) = chainRight p operation (OrValue Undefined)
   \<and> chainRight p operation (OrValue (Num 0)) = chainRight p operation (OrValue Undefined)
   \<and> results (parse (3 + k) (chain item operation (OrValue (Str []))) (Str []))
       = Inr [(Str [], Str [])]
   \<and> results (parse (3 + k) (chain item operation (OrValue (Num 0))) (Str []))
       = Inr [(Num 0, Str [])]
   \<and> results (parse (3 + k) (chainRight item operation (OrValue (Str []))) (Str [])) = Inr []
   \<and> results (parse (3 + k) (chainRight item operation (OrValue (Num 0))) (Str [])) = Inr []"
proof -
  have s: "chain p operation (OrValue (Str []))
     = or_parser (chain p operation (OrValue Undefined)) [OrValue (Str [])]
   \<and> chain p operation (OrValue (Num 0))
     = or_parser (chain p operation (OrValue Undefined)) [OrValue (Num 0)]
   \<and> chainRight p operation (OrValue (Str [])) = chainRight p operation (OrValue Undefined)
   \<and> chainRight p operation (OrValue (Num 0)) = chainRight p operation (OrValue Undefined)"
    by (simp add: chain_def chainRight_def)
  have a: "results (parse 3 (chain item operation (OrValue (Str []))) (Str []))
      = Inr [(Str [], Str [])]"
    by (simp add: eval_defs)
  have b: "results (parse 3 (chain item operation (OrValue (Num 0))) (Str []))
      = Inr [(Num 0, Str [])]"
    by (simp add: eval_defs)
  have c: "results (parse 3 (chainRight item operation (OrValue (Str []))) (Str [])) = Inr []"
    by (simp add: eval_defs)
  have d: "results (parse 3 (chainRight item operation (OrValue (Num 0))) (Str [])) = Inr []"
    by (simp add: eval_defs)
  show ?thesis
    using s results_parse_mono[OF a] results_parse_mono[OF b]
      results_parse_mono[OF c] results_parse_mono[OF d] by blast
qed

section \<open>Ordered choice over the stored alternatives\<close>

text \<open>
  \<^verbatim>\<open>AddedParser.process\<close> returns the Result of the first stored alternative whose
  \<^verbatim>\<open>parse\<close> is not empty, and its own buffer when every alternative is empty. The
  stored alternatives are the copies that the constructor made.
\<close>

lemma added_loop_first_success:
  assumes "\<forall>x\<in>set pre. \<exists>x'. parse_with rec x input = Inr (x', [])"
    and "parse_with rec q input = Inr (q', res)" and "res \<noteq> []"
  shows "\<exists>ps'. added_loop rec done (pre @ q # qs) input = Inr (ps', Some res)"
  using assms(1)
proof (induction pre arbitrary: "done")
  case Nil
  then show ?case using assms(2,3) by simp
next
  case (Cons x pre)
  then obtain x' where "parse_with rec x input = Inr (x', [])" by auto
  moreover from Cons have "\<exists>ps'. added_loop rec (done @ [x']) (pre @ q # qs) input = Inr (ps', Some res)"
    by simp
  ultimately show ?case by simp
qed

lemma added_loop_all_fail:
  assumes "\<forall>x\<in>set ps. \<exists>x'. parse_with rec x input = Inr (x', [])"
  shows "\<exists>ps'. added_loop rec done ps input = Inr (ps', None)"
  using assms
proof (induction ps arbitrary: "done")
  case Nil
  show ?case by simp
next
  case (Cons x ps)
  then obtain x' where "parse_with rec x input = Inr (x', [])" by auto
  moreover from Cons have "\<exists>ps'. added_loop rec (done @ [x']) ps input = Inr (ps', None)"
    by simp
  ultimately show ?case by simp
qed

lemma added_first_success:
  assumes "\<forall>x\<in>set pre. \<exists>x'. parse_with rec x input = Inr (x', [])"
    and "parse_with rec q input = Inr (q', res)" and "res \<noteq> []"
  shows "results (step rec (AddedParser r m (pre @ q # qs)) input) = Inr res"
proof -
  from added_loop_first_success[OF assms, of "[]" qs]
  obtain ps' where "added_loop rec [] (pre @ q # qs) input = Inr (ps', Some res)" by blast
  then show ?thesis by (simp add: results_def)
qed

lemma added_all_fail:
  assumes "\<forall>x\<in>set ps. \<exists>x'. parse_with rec x input = Inr (x', [])"
  shows "results (step rec (AddedParser r m ps) input) = Inr r"
proof -
  from added_loop_all_fail[OF assms, of "[]"]
  obtain ps' where "added_loop rec [] ps input = Inr (ps', None)" by blast
  then show ?thesis by (simp add: results_def)
qed

lemma or_parser_wraps_values:
  "or_parser p [OrValue v] = AddedParser [] None [copy p, ResultParser [] None v]"
  by (simp add: or_parser_def result_parser_def)


lemma or_left_success:
  assumes "parse n (copy a) input = Inr (a', res)" and "res \<noteq> []"
  shows "results (parse (Suc n) (or_parser a bs) input) = Inr res"
proof -
  let ?X = "AddedParser [] None (copy a # map copy (map parserify bs))"
  have pw: "parse_with (process n) (copy a) input = Inr (a', res)"
    using assms(1) by (simp add: parse_def)
  have "results (step (process n) (AddedParser [] None ([] @ copy a # map copy (map parserify bs))) input)
      = Inr res"
    by (rule added_first_success[OF _ pw assms(2)]) simp
  then obtain X' where st: "step (process n) ?X input = Inr (X', res)"
    by (auto simp: results_def split: sum.splits)
  from step_mapValues[OF st] have "mapValues X' = None" by simp
  with st show ?thesis
    by (simp add: parse_def parse_with_def or_parser_def results_def)
qed

section \<open>Negation of a parser with an empty buffer\<close>

lemma negated_on_empty_buffer:
  "rec p input = Inr (p', res) \<Longrightarrow>
   results (step rec (NegatedParser [] m p) input) = Inr (if res = [] then [(input, input)] else [])"
  by (simp add: results_def push_def)

lemma not_parser_first_run:
  assumes "process n (copy p) input = Inr (p', res)"
  shows "results (parse (Suc n) (not_parser p) input)
           = Inr (if res = [] then [(input, input)] else [])"
  using assms by (simp add: parse_def parse_with_def not_parser_def results_def push_def)

section \<open>Remainders of parsers with empty buffers\<close>

text \<open>
  A parser with empty buffers returns only remainders of its input: by induction on
  the depth bound, with the iteration of \<^verbatim>\<open>BindedParser\<close> and of \<^verbatim>\<open>AddedParser\<close> by induction on
  the list they run over. \<^verbatim>\<open>many\<close> and \<^verbatim>\<open>manyOrNone\<close> of such a parser are such parsers.
\<close>

lemma remainder_of_refl: "remainder_of s s"
  by (simp add: remainder_of_def)

lemma remainder_of_trans: "remainder_of a b \<Longrightarrow> remainder_of b c \<Longrightarrow> remainder_of a c"
  by (auto simp: remainder_of_def split: val.splits dest: suffix_order.trans)

lemma slice1_remainder: "js_slice1 input = Inr rest \<Longrightarrow> remainder_of rest input"
  by (cases input) (auto simp: remainder_of_def suffix_tl)

lemma clean_set_result: "clean p \<Longrightarrow> set_result [] p = p"
  by (erule clean.cases) simp_all

lemma clean_copy: "clean p \<Longrightarrow> clean (copy p)"
proof (induction p rule: copy.induct)
  case (4 r m p c a)
  from "4.prems" have "clean p" "\<forall>v i q. apply_cb c v i = RetP q \<longrightarrow> clean q"
    by (auto elim: clean.cases)
  with "4.IH" show ?case by (auto intro: clean.intros)
next
  case (5 r m ps)
  from "5.prems" have "\<forall>q\<in>set ps. clean q" by (auto elim: clean.cases)
  with "5.IH" show ?case by (auto intro!: clean.intros)
next
  case (6 r m p)
  from "6.prems" have "clean p" by (auto elim: clean.cases)
  with "6.IH" show ?case by (auto intro: clean.intros)
next
  case (7 r m f c)
  from "7.prems" have "clean c" by (auto elim: clean.cases)
  with "7.IH" show ?case by simp
next
  case (8 r m f)
  from "8.prems" have "clean (f ())" by (auto elim: clean.cases)
  then show ?case by (auto intro: clean.intros)
qed simp_all

lemma suffixes_only_map_values: "suffixes_only (map_values f r) i = suffixes_only r i"
  by (auto simp: suffixes_only_def map_values_def)

lemma suffixes_only_append:
  "suffixes_only (a @ b) i = (suffixes_only a i \<and> suffixes_only b i)"
  by (auto simp: suffixes_only_def)

lemma suffixes_only_trans:
  "suffixes_only res s \<Longrightarrow> remainder_of s i \<Longrightarrow> suffixes_only res i"
  by (auto simp: suffixes_only_def intro: remainder_of_trans)

lemma parse_with_suffixes:
  assumes "sound_rec rec" and "clean p" and "parse_with rec p i = Inr (p', res)"
  shows "suffixes_only res i"
proof -
  from assms(2) have sr: "set_result [] p = p" by (rule clean_set_result)
  from assms(3) sr obtain p0 r0 where r: "rec p i = Inr (p0, r0)"
    and res: "res = (case mapValues p0 of None \<Rightarrow> r0 | Some f \<Rightarrow> map_values f r0)"
    by (auto simp: parse_with_def Let_def split: sum.splits)
  from assms(1,2) r have "suffixes_only r0 i" by (auto simp: sound_rec_def)
  then show ?thesis using res by (simp add: suffixes_only_map_values split: option.splits)
qed

lemma parserifyCb_clean:
  assumes "\<forall>v i q. apply_cb c v i = RetP q \<longrightarrow> clean q" and "parserifyCb c v s = Inr np"
  shows "clean np"
proof (cases "apply_cb c v s")
  case (RetV x)
  then show ?thesis using assms(2) by (auto simp: result_parser_def intro: clean.intros)
next
  case (RetP q)
  then have "clean q" using assms(1) by blast
  then show ?thesis using assms(2) RetP by (auto intro: clean_copy)
next
  case (RetThrow e)
  then show ?thesis using assms(2) by simp
qed

lemma binded_loop_suffixes:
  assumes "sound_rec rec" and "\<forall>v i q. apply_cb c v i = RetP q \<longrightarrow> clean q"
  shows "suffixes_only first input \<Longrightarrow> suffixes_only acc input \<Longrightarrow>
         binded_loop rec c first acc = Inr r' \<Longrightarrow> suffixes_only r' input"
proof (induction first arbitrary: acc)
  case Nil
  then show ?case by simp
next
  case (Cons d first)
  obtain v s where d: "d = (v, s)" by (cases d)
  from Cons.prems(3) d obtain np np' res where np: "parserifyCb c v s = Inr np"
    and pw: "parse_with rec np s = Inr (np', res)"
    and rest: "binded_loop rec c first (concat_result acc res) = Inr r'"
    by (auto split: sum.splits)
  from parserifyCb_clean[OF assms(2) np] have "clean np" .
  from parse_with_suffixes[OF assms(1) this pw] have "suffixes_only res s" .
  moreover from Cons.prems(1) d have "remainder_of s input" by (simp add: suffixes_only_def)
  ultimately have "suffixes_only res input" by (rule suffixes_only_trans)
  with Cons.prems(2) have acc: "suffixes_only (concat_result acc res) input"
    by (simp add: concat_result_def suffixes_only_append)
  from Cons.prems(1) have "suffixes_only first input" by (simp add: suffixes_only_def)
  from Cons.IH[OF this acc rest] show ?case .
qed

lemma added_loop_suffixes:
  assumes "sound_rec rec"
  shows "\<forall>q\<in>set qs. clean q \<Longrightarrow> added_loop rec done qs input = Inr (ps', Some res) \<Longrightarrow>
         suffixes_only res input"
proof (induction qs arbitrary: "done")
  case Nil
  then show ?case by simp
next
  case (Cons q qs)
  from Cons.prems(2) obtain q' r0 where pw: "parse_with rec q input = Inr (q', r0)"
    by (auto split: sum.splits)
  from Cons.prems(1) have "clean q" by simp
  from parse_with_suffixes[OF assms this pw] have r0: "suffixes_only r0 input" .
  show ?case
  proof (cases "r0 = []")
    case True
    with Cons.prems(2) pw have "added_loop rec (done @ [q']) qs input = Inr (ps', Some res)"
      by simp
    moreover from Cons.prems(1) have "\<forall>q\<in>set qs. clean q" by simp
    ultimately show ?thesis using Cons.IH by blast
  next
    case False
    with Cons.prems(2) pw have "res = r0" by simp
    with r0 show ?thesis by simp
  qed
qed

lemma step_suffixes:
  assumes "sound_rec rec" and "clean p" and "step rec p input = Inr (p', res)"
  shows "suffixes_only res input"
  using assms(2)
proof (cases rule: clean.cases)
  case (clean_item m)
  then show ?thesis using assms(3)
    by (auto simp: suffixes_only_def push_def slice1_remainder split: if_splits sum.splits)
next
  case (clean_zero m)
  then show ?thesis using assms(3) by (auto simp: suffixes_only_def)
next
  case (clean_result m v)
  then show ?thesis using assms(3) by (auto simp: suffixes_only_def push_def remainder_of_refl)
next
  case (clean_binded q c m a)
  from assms(3) clean_binded obtain q' first where pw: "parse_with rec q input = Inr (q', first)"
    by (auto split: sum.splits)
  from parse_with_suffixes[OF assms(1) clean_binded(2) pw] have first: "suffixes_only first input" .
  show ?thesis
  proof (cases "a \<and> first = []")
    case True
    with assms(3) clean_binded pw obtain np np' where np: "parserifyCb c (Str []) input = Inr np"
      and pw2: "parse_with rec np input = Inr (np', res)"
      by (auto split: sum.splits)
    from parserifyCb_clean[OF clean_binded(3) np] have "clean np" .
    from parse_with_suffixes[OF assms(1) this pw2] show ?thesis .
  next
    case False
    with assms(3) clean_binded pw have "binded_loop rec c first [] = Inr res"
      by (auto split: sum.splits)
    moreover have "suffixes_only [] input" by (simp add: suffixes_only_def)
    ultimately show ?thesis using binded_loop_suffixes[OF assms(1) clean_binded(3) first] by blast
  qed
next
  case (clean_added ps m)
  from assms(3) clean_added obtain ps' ro where al: "added_loop rec [] ps input = Inr (ps', ro)"
    by (auto split: sum.splits)
  show ?thesis
  proof (cases ro)
    case None
    with assms(3) clean_added al show ?thesis by (auto simp: suffixes_only_def)
  next
    case (Some r0)
    with assms(3) clean_added al have "res = r0" by auto
    with added_loop_suffixes[OF assms(1) clean_added(2)] al Some show ?thesis by blast
  qed
next
  case (clean_negated q m)
  then show ?thesis using assms(3)
    by (auto simp: suffixes_only_def push_def remainder_of_refl split: sum.splits if_splits)
next
  case (clean_lazy fn m)
  from clean_copy[OF clean_lazy(2)] have "clean (copy (fn ()))" .
  then show ?thesis using assms(1,3) clean_lazy(1)
    by (auto simp: sound_rec_def split: sum.splits)
next
  case (clean_cached c m fn)
  from clean_copy[OF clean_cached(2)] have "clean (copy c)" .
  then show ?thesis using assms(1,3) clean_cached(1)
    by (auto simp: sound_rec_def split: sum.splits)
qed

lemma process_sound: "sound_rec (process n)"
proof (induction n)
  case 0
  show ?case by (simp add: sound_rec_def)
next
  case (Suc n)
  show ?case unfolding sound_rec_def
  proof (intro allI impI)
    fix p i p' res
    assume "clean p" and "process (Suc n) p i = Inr (p', res)"
    then show "suffixes_only res i" using step_suffixes[OF Suc] by simp
  qed
qed

lemma clean_remainders_are_suffixes:
  assumes "clean p" and "parse n p input = Inr (p', res)"
  shows "\<forall>(v, s)\<in>set res. remainder_of s input"
proof -
  from parse_with_suffixes[OF process_sound assms(1)] assms(2)
  have "suffixes_only res input" by (simp add: parse_def)
  then show ?thesis by (auto simp: suffixes_only_def)
qed

lemma many_step_clean: "many_step c ty c1 = RetP q \<Longrightarrow> clean q"
  by (auto simp: result_parser_def Let_def intro: clean.intros split: val.splits sum.splits if_splits)

lemma apply_many_outer:
  "apply_cb (CbManyOuter p ty) c i = RetP
     (BindedParser [] None
        (AddedParser [] None
           [BindedParser [] None (copy (copy (copy p))) (CbManyOuter p ty) False,
            ResultParser [] None (Str [])])
        (CbManyInner c ty) False)"
  by (simp add: manyOrNone_def many_def or_parser_def result_parser_def)

lemma many_shape_clean:
  assumes "clean p" and "many_shape p ty x"
  shows "clean x"
  using assms(2)
proof (coinduction arbitrary: x)
  case (clean y)
  from clean consider
      (outer) q where "clean q" "y = BindedParser [] None q (CbManyOuter p ty) False"
    | (alt) q where "clean q" "y = AddedParser [] None
            [BindedParser [] None q (CbManyOuter p ty) False, ResultParser [] None (Str [])]"
    | (inner) q c where "clean q" "y = BindedParser [] None
            (AddedParser [] None
               [BindedParser [] None q (CbManyOuter p ty) False, ResultParser [] None (Str [])])
            (CbManyInner c ty) False"
    unfolding many_shape_def by blast
  then show ?case
  proof cases
    case outer
    have "clean (copy (copy (copy p)))" using assms(1) by (intro clean_copy)
    then have "\<forall>v i q'. apply_cb (CbManyOuter p ty) v i = RetP q' \<longrightarrow> many_shape p ty q' \<or> clean q'"
      unfolding apply_many_outer many_shape_def by blast
    with outer show ?thesis by auto
  next
    case alt
    have "many_shape p ty (BindedParser [] None q (CbManyOuter p ty) False)"
      using alt(1) unfolding many_shape_def by blast
    moreover have "clean (ResultParser [] None (Str []))" by (rule clean.intros)
    ultimately show ?thesis using alt by auto
  next
    case inner
    have "many_shape p ty (AddedParser [] None
            [BindedParser [] None q (CbManyOuter p ty) False, ResultParser [] None (Str [])])"
      using inner(1) unfolding many_shape_def by blast
    moreover have "\<forall>v i q'. apply_cb (CbManyInner c ty) v i = RetP q' \<longrightarrow> many_shape p ty q' \<or> clean q'"
      using many_step_clean by auto
    ultimately show ?thesis using inner by auto
  qed
qed

lemma clean_many: "clean p \<Longrightarrow> clean (many p ty)"
  by (rule many_shape_clean[where p = p and ty = ty])
     (auto simp: many_def many_shape_def intro: clean_copy)

lemma clean_manyOrNone: "clean p \<Longrightarrow> clean (manyOrNone p (OrValue Undefined) ty)"
  by (rule many_shape_clean[where p = p and ty = ty])
     (auto simp: manyOrNone_def or_parser_def result_parser_def many_def many_shape_def intro: clean_copy)

text \<open>The primitive parsers under \<^verbatim>\<open>parse\<close>, whatever their buffer held: the item parser
  leaves the input without its first element, the others leave the input.\<close>

lemma primitive_consumption:
  "results (parse (Suc n) (ItemParser r m) (Str s)) = Inr (if s = [] then [] else [(case m of None \<Rightarrow> Str [hd s] | Some f \<Rightarrow> f (Str [hd s]), Str (tl s))])"
  "results (parse (Suc n) (ItemParser r m) (Arr xs)) = Inr (if xs = [] then [] else [(case m of None \<Rightarrow> hd xs | Some f \<Rightarrow> f (hd xs), Arr (tl xs))])"
  "results (parse (Suc n) (ZeroParser r m) input) = Inr []"
  "\<exists>v. results (parse (Suc n) (ResultParser r m x) input) = Inr [(v, input)]"
  "results (parse (Suc n) (NegatedParser r m p) input) = Inr res \<Longrightarrow> res = [] \<or> (\<exists>v. res = [(v, input)])"
      apply (cases s; simp add: eval_defs split: option.splits)
     apply (cases xs; simp add: eval_defs split: option.splits)
    apply (simp add: eval_defs split: option.splits)
   apply (simp add: eval_defs split: option.splits)
  apply (auto simp: eval_defs split: option.splits sum.splits if_splits)
  done

section \<open>Runs in which a claimed property fails\<close>

text \<open>
  The composed classes override \<^verbatim>\<open>copy()\<close> and rebuild the object from its
  sub-parsers, callback and flag only: a mapping registered with \<^verbatim>\<open>map\<close> is not
  carried over, although the \<^verbatim>\<open>copy()\<close> of the base class carries it. Every combinator
  copies its receiver, so the mapping of a composed parser is lost as soon as the parser
  is used inside another one.

  Claim C1 at \<^verbatim>\<open>a = item().then(x => x).map(_ => 'M')\<close>, \<^verbatim>\<open>b = Parser.zero()\<close> and
  the input \<^verbatim>\<open>"x"\<close>: \<open>a\<close> yields the derivation \<^verbatim>\<open>('M', '')\<close>, and \<^verbatim>\<open>a.or(b)\<close> yields
  \<^verbatim>\<open>('x', '')\<close>, which is not the Result of \<open>a\<close>.
\<close>

theorem or_loses_mapping_of_left:
  "results (parse 3 (map_parser (then_parser item (NextCallback (CbUser (\<lambda>v i. RetV v))) False)
                      (\<lambda>v. Str ''M'')) (Str ''x''))
     = Inr [(Str ''M'', Str [])]
   \<and> results (parse 4 (or_parser
                        (map_parser (then_parser item (NextCallback (CbUser (\<lambda>v i. RetV v))) False)
                           (\<lambda>v. Str ''M''))
                        [OrParser zero]) (Str ''x''))
     = Inr [(Str ''x'', Str [])]"
  by (simp add: eval_defs)

text \<open>
  Claim C2 at the same parser: its copy parses \<^verbatim>\<open>"x"\<close> to \<^verbatim>\<open>('x', '')\<close> where the
  parser itself gives \<^verbatim>\<open>('M', '')\<close>, so the copy does not have the definition of the
  original. And the copy of an item parser that has parsed \<^verbatim>\<open>"a"\<close> holds the derivation
  of that run in its buffer: \<^verbatim>\<open>Object.assign\<close> puts the buffer of the original over the
  new one.
\<close>

theorem copy_loses_mapping:
  "results (parse 3 (map_parser (then_parser item (NextCallback (CbUser (\<lambda>v i. RetV v))) False)
                      (\<lambda>v. Str ''M'')) (Str ''x''))
     = Inr [(Str ''M'', Str [])]
   \<and> results (parse 3 (copy (map_parser
                              (then_parser item (NextCallback (CbUser (\<lambda>v i. RetV v))) False)
                              (\<lambda>v. Str ''M''))) (Str ''x''))
     = Inr [(Str ''x'', Str [])]
   \<and> (case parse 2 item (Str ''a'') of
         Inl e \<Rightarrow> False
       | Inr (p1, r1) \<Rightarrow> get_result (copy p1) = [(Str ''a'', Str [])])"
  by (simp add: eval_defs)

text \<open>
  \<^verbatim>\<open>NegatedParser.process\<close> and \<^verbatim>\<open>LazyParser.process\<close> call \<^verbatim>\<open>process\<close> of the wrapped
  parser, not \<^verbatim>\<open>parse\<close> as \<^verbatim>\<open>BindedParser\<close> and \<^verbatim>\<open>AddedParser\<close> do: the buffer of the
  wrapped parser is not reset, and what an earlier run left there counts as a
  derivation of this run.

  Claim C6 at \<^verbatim>\<open>n = item().equals('a').not()\<close>: after \<^verbatim>\<open>n.parse("a")\<close>, which is empty
  as it should be, \<^verbatim>\<open>n.parse("b")\<close> is empty too, although \<^verbatim>\<open>item().equals('a')\<close> yields
  no derivation on \<^verbatim>\<open>"b"\<close>; a new \<^verbatim>\<open>item().equals('a').not()\<close> yields \<^verbatim>\<open>("b", "b")\<close>
  there. Likewise for an item parser \<open>p\<close> that has parsed \<^verbatim>\<open>"a"\<close>: on the empty input
  \<open>p\<close> yields nothing and \<^verbatim>\<open>p.not()\<close> yields nothing.
\<close>

theorem negation_reads_stale_buffer:
  "(case parse 5 (not_parser (equals item (Str ''a''))) (Str ''a'') of
      Inl e \<Rightarrow> False
    | Inr (n1, r1) \<Rightarrow> r1 = [] \<and> results (parse 5 n1 (Str ''b'')) = Inr [])
   \<and> results (parse 5 (equals item (Str ''a'')) (Str ''b'')) = Inr []
   \<and> results (parse 5 (not_parser (equals item (Str ''a''))) (Str ''b''))
       = Inr [(Str ''b'', Str ''b'')]
   \<and> (case parse 2 item (Str ''a'') of
         Inl e \<Rightarrow> False
       | Inr (p1, r1) \<Rightarrow>
           results (parse 2 p1 (Str [])) = Inr []
           \<and> results (parse 3 (not_parser p1) (Str [])) = Inr [])"
  by (simp add: eval_defs)

text \<open>
  Claim C3 at an item parser \<open>digit\<close> that has parsed \<^verbatim>\<open>"ab"\<close>:
  \<^verbatim>\<open>Parser.lazy(() => digit).parse("x")\<close> yields the derivations \<^verbatim>\<open>('a', 'b')\<close> and
  \<^verbatim>\<open>('x', '')\<close>; the remainder \<^verbatim>\<open>'b'\<close> is not a suffix of the input \<^verbatim>\<open>"x"\<close>, and it is
  not shorter than the input.
\<close>

theorem stale_derivation_in_result:
  "(case parse 2 item (Str ''ab'') of
      Inl e \<Rightarrow> False
    | Inr (digit, r1) \<Rightarrow>
        r1 = [(Str ''a'', Str ''b'')]
        \<and> results (parse 3 (lazy (\<lambda>u. digit)) (Str ''x''))
            = Inr [(Str ''a'', Str ''b''), (Str ''x'', Str [])])"
  by (simp add: eval_defs)

text \<open>
  Claim C10 at an item parser \<open>p\<close> that has parsed \<^verbatim>\<open>"a"\<close>: \<^verbatim>\<open>p.process(null)\<close> and
  \<^verbatim>\<open>p.process(undefined)\<close> do not throw, but they return the buffer of the earlier run,
  the derivation \<^verbatim>\<open>('a', '')\<close>, and not the empty Result. The comment of the class says
  that the item parser returns zero on an input of zero length; \<^verbatim>\<open>process\<close> returns
  \<^verbatim>\<open>this.result\<close>, which nothing has reset.
\<close>

theorem item_absent_input_stale_buffer:
  "(case parse 2 item (Str ''a'') of
      Inl e \<Rightarrow> False
    | Inr (p1, r1) \<Rightarrow>
        r1 = [(Str ''a'', Str [])]
        \<and> results (process 1 p1 Null) = Inr [(Str ''a'', Str [])]
        \<and> results (process 1 p1 Undefined) = Inr [(Str ''a'', Str [])])"
  by (simp add: eval_defs)

end
